theory Spec2Isabelle
  imports Main
begin

section \<open>Go strings as byte lists\<close>

text \<open>
  A Go string is a sequence of bytes; \<open>string\<close> (a list of 8-bit \<open>char\<close>) is the same
  thing, and \<open>length\<close> is Go's \<open>len\<close>. The functions of the packages \<open>strings\<close> and
  \<open>strconv\<close> that \<open>parsePoolDisksFromLines\<close> calls are written out below after their
  documented behaviour and their implementation in the Go distribution.
\<close>

definition HasPrefix :: "string \<Rightarrow> string \<Rightarrow> bool" where
  "HasPrefix s pre = (length pre \<le> length s \<and> take (length pre) s = pre)"

text \<open>\<open>strings.Contains(s, substr)\<close>: \<open>substr\<close> occurs in \<open>s\<close> at some byte offset.\<close>

fun Contains :: "string \<Rightarrow> string \<Rightarrow> bool" where
  "Contains [] substr = (substr = [])"
| "Contains (c # cs) substr = (HasPrefix (c # cs) substr \<or> Contains cs substr)"

text \<open>
  \<open>strings.TrimLeft(s, cutset)\<close> removes the leading characters that occur in the
  cutset. The only cutset of this program is the single ASCII space, for which the
  characters are bytes.
\<close>

definition TrimLeft :: "string \<Rightarrow> string \<Rightarrow> string" where
  "TrimLeft s cutset = dropWhile (\<lambda>c. c \<in> set cutset) s"

text \<open>
  \<open>strings.Fields\<close> splits around runs of white space as \<open>unicode.IsSpace\<close> defines it:
  the ASCII characters tab, line feed, vertical tab, form feed, carriage return and
  space, and the code points U+0085, U+00A0, U+1680, U+2000 to U+200A, U+2028, U+2029,
  U+202F, U+205F and U+3000 in their UTF-8 encoding. \<open>spaceWidth s\<close> is the number of
  bytes of the white-space character that \<open>s\<close> starts with, and 0 when it starts with
  none. The lead bytes of these encodings are no continuation bytes, so that a scan
  byte by byte meets them exactly where Go's decoder does.
\<close>

definition asciiSpace :: "char \<Rightarrow> bool" where
  "asciiSpace c = (c = CHR 0x09 \<or> c = CHR 0x0A \<or> c = CHR 0x0B \<or> c = CHR 0x0C
                    \<or> c = CHR 0x0D \<or> c = CHR 0x20)"

fun spaceWidth :: "string \<Rightarrow> nat" where
  "spaceWidth [] = 0"
| "spaceWidth (c # cs) =
     (if asciiSpace c then 1
      else if c = CHR 0xC2 then
        (case cs of d # _ \<Rightarrow> if d = CHR 0x85 \<or> d = CHR 0xA0 then 2 else 0 | [] \<Rightarrow> 0)
      else if c = CHR 0xE1 then
        (case cs of d # e # _ \<Rightarrow> if d = CHR 0x9A \<and> e = CHR 0x80 then 3 else 0 | _ \<Rightarrow> 0)
      else if c = CHR 0xE2 then
        (case cs of
           d # e # _ \<Rightarrow>
             if d = CHR 0x80 \<and>
                ((128::nat) \<le> of_char e \<and> (of_char e :: nat) \<le> 138
                 \<or> e = CHR 0xA8 \<or> e = CHR 0xA9 \<or> e = CHR 0xAF) then 3
             else if d = CHR 0x81 \<and> e = CHR 0x9F then 3
             else 0
         | _ \<Rightarrow> 0)
      else if c = CHR 0xE3 then
        (case cs of d # e # _ \<Rightarrow> if d = CHR 0x80 \<and> e = CHR 0x80 then 3 else 0 | _ \<Rightarrow> 0)
      else 0)"

text \<open>
  The scan of \<open>strings.Fields\<close>: \<open>skip\<close> counts the bytes of a white-space character
  still to be passed over, \<open>cur\<close> is the field being read, in reverse.
\<close>

fun fieldsFrom :: "nat \<Rightarrow> string \<Rightarrow> string \<Rightarrow> string list" where
  "fieldsFrom skip cur [] = (if cur = [] then [] else [rev cur])"
| "fieldsFrom (Suc k) cur (c # cs) = fieldsFrom k cur cs"
| "fieldsFrom 0 cur (c # cs) =
     (case spaceWidth (c # cs) of
        0 \<Rightarrow> fieldsFrom 0 (c # cur) cs
      | Suc k \<Rightarrow> (if cur = [] then [] else [rev cur]) @ fieldsFrom k [] cs)"

definition Fields :: "string \<Rightarrow> string list" where
  "Fields s = fieldsFrom 0 [] s"

section \<open>strconv.Atoi\<close>

datatype error = ErrSyntax | ErrRange | ErrUnsupportedProperty | ErrExternal string

text \<open>Go's \<open>int\<close> is taken to be 64 bits wide, as on the platforms ZFS runs on.\<close>

definition intSize :: nat where
  "intSize = 64"

definition digitVal :: "char \<Rightarrow> nat option" where
  "digitVal c = (let n = (of_char c :: nat) in if 48 \<le> n \<and> n \<le> 57 then Some (n - 48) else None)"

text \<open>
  The loop of \<open>strconv.ParseUint\<close> in base 10 with 64 bits: a character that is no
  digit is a syntax error, a value beyond the 64 bits a range error, whichever comes
  first.
\<close>

fun parseUintLoop :: "nat \<Rightarrow> string \<Rightarrow> error + nat" where
  "parseUintLoop n [] = Inr n"
| "parseUintLoop n (c # cs) =
     (case digitVal c of
        None \<Rightarrow> Inl ErrSyntax
      | Some d \<Rightarrow>
          if n \<ge> (2 ^ 64 - 1) div 10 + 1 then Inl ErrRange
          else if n * 10 + d > 2 ^ 64 - 1 then Inl ErrRange
          else parseUintLoop (n * 10 + d) cs)"

definition ParseUint :: "string \<Rightarrow> error + nat" where
  "ParseUint s = (if s = [] then Inl ErrSyntax else parseUintLoop 0 s)"

definition ParseInt :: "string \<Rightarrow> error + int" where
  "ParseInt s =
     (if s = [] then Inl ErrSyntax
      else
        let neg = (hd s = CHR ''-'');
            s' = (if hd s = CHR ''+'' \<or> hd s = CHR ''-'' then tl s else s)
        in case ParseUint s' of
             Inl ErrRange \<Rightarrow> Inl ErrRange
           | Inl e \<Rightarrow> Inl e
           | Inr un \<Rightarrow>
               if \<not> neg \<and> un \<ge> 2 ^ (intSize - 1) then Inl ErrRange
               else if neg \<and> un > 2 ^ (intSize - 1) then Inl ErrRange
               else Inr (if neg then - int un else int un))"

text \<open>The fast path of \<open>Atoi\<close>: a short string cannot overflow.\<close>

fun atoiFast :: "nat \<Rightarrow> string \<Rightarrow> error + nat" where
  "atoiFast n [] = Inr n"
| "atoiFast n (ch # s) =
     (case digitVal ch of None \<Rightarrow> Inl ErrSyntax | Some d \<Rightarrow> atoiFast (n * 10 + d) s)"

definition Atoi :: "string \<Rightarrow> error + int" where
  "Atoi s =
     (if 0 < length s \<and> length s < 19 then
        let s' = (if hd s = CHR ''-'' \<or> hd s = CHR ''+'' then tl s else s)
        in if length s' < 1 then Inl ErrSyntax
           else case atoiFast 0 s' of
                  Inl e \<Rightarrow> Inl e
                | Inr n \<Rightarrow> Inr (if hd s = CHR ''-'' then - int n else int n)
      else ParseInt s)"

section \<open>parsePoolDisksFromLines\<close>

record PoolDisk =
  Zpool :: string
  Name :: string
  Vdev :: string
  Kind :: string
  State :: string
  ReadErrors :: int
  WriteErrors :: int
  ChecksumErrors :: int

text \<open>The local variables of the function that live across iterations of its loop.\<close>

record parseState =
  poolDisks :: "PoolDisk list"
  isInsideDisks :: bool
  minPadding :: int
  currentZpool :: string
  currentVdev :: string

text \<open>
  What one iteration of the loop does: go on with the next line (\<open>continue\<close> or the end
  of the body), leave the loop (\<open>break\<close>), or return from the function. The returned
  pair is Go's \<open>([]PoolDisk, error)\<close>, with \<open>nil\<close> as the empty list and as \<open>None\<close>.
\<close>

datatype outcome =
  Continue parseState
| Break parseState
| Return "PoolDisk list \<times> error option"

definition padding :: "string \<Rightarrow> int" where
  "padding line = int (length line) - int (length (TrimLeft line '' ''))"

definition isHeader :: "string \<Rightarrow> bool" where
  "isHeader line = (Contains line ''NAME'' \<and> Contains line ''STATE'' \<and> Contains line ''CKSUM'')"

definition processLine :: "parseState \<Rightarrow> string \<Rightarrow> outcome" where
  "processLine st line =
     (if \<not> isInsideDisks st then
        (if isHeader line
         then Continue (st\<lparr>isInsideDisks := True, minPadding := padding line\<rparr>)
         else Continue st)
      else
        let currentPadding = padding line in
        if currentPadding \<ge> minPadding st then
          let fields = Fields line in
          if currentPadding - minPadding st = 0 then
            (if length fields > 0 then Continue (st\<lparr>currentZpool := fields ! 0\<rparr>)
             else Continue st)
          else if currentPadding - minPadding st = 2 then
            (if currentZpool st = ''spares'' then
               (if length fields = 2 then
                  Continue (st\<lparr>poolDisks := poolDisks st @
                    [\<lparr>Zpool = ''spares'', Name = fields ! 0, Vdev = [], Kind = ''spare'',
                      State = fields ! 1, ReadErrors = 0, WriteErrors = 0,
                      ChecksumErrors = 0\<rparr>]\<rparr>)
                else Continue st)
             else
               (if length fields = 5 then
                  (case Atoi (fields ! 2) of
                     Inl err \<Rightarrow> Return ([], Some err)
                   | Inr readErrors \<Rightarrow>
                  (case Atoi (fields ! 3) of
                     Inl err \<Rightarrow> Return ([], Some err)
                   | Inr writeErrors \<Rightarrow>
                  (case Atoi (fields ! 4) of
                     Inl err \<Rightarrow> Return ([], Some err)
                   | Inr checksumErrors \<Rightarrow>
                       Continue (st\<lparr>currentVdev := fields ! 0,
                         poolDisks := poolDisks st @
                           [\<lparr>Zpool = currentZpool st, Name = fields ! 0, Vdev = fields ! 0,
                             Kind = ''vdev'', State = fields ! 1, ReadErrors = readErrors,
                             WriteErrors = writeErrors,
                             ChecksumErrors = checksumErrors\<rparr>]\<rparr>))))
                else Continue st))
          else if currentPadding - minPadding st \<ge> 4 then
            (if length fields = 5 then
               (case Atoi (fields ! 2) of
                  Inl err \<Rightarrow> Return ([], Some err)
                | Inr readErrors \<Rightarrow>
               (case Atoi (fields ! 3) of
                  Inl err \<Rightarrow> Return ([], Some err)
                | Inr writeErrors \<Rightarrow>
               (case Atoi (fields ! 4) of
                  Inl err \<Rightarrow> Return ([], Some err)
                | Inr checksumErrors \<Rightarrow>
                    Continue (st\<lparr>poolDisks := poolDisks st @
                      [\<lparr>Zpool = currentZpool st, Name = fields ! 0, Vdev = currentVdev st,
                        Kind = ''disk'', State = fields ! 1, ReadErrors = readErrors,
                        WriteErrors = writeErrors, ChecksumErrors = checksumErrors\<rparr>]\<rparr>))))
             else Continue st)
          else Continue st
        else Break st)"

fun parseLoop :: "parseState \<Rightarrow> string list \<Rightarrow> PoolDisk list \<times> error option" where
  "parseLoop st [] = (poolDisks st, None)"
| "parseLoop st (line # lines) =
     (case processLine st line of
        Continue st' \<Rightarrow> parseLoop st' lines
      | Break st' \<Rightarrow> (poolDisks st', None)
      | Return r \<Rightarrow> r)"

definition initState :: parseState where
  "initState = \<lparr>poolDisks = [], isInsideDisks = False, minPadding = 0,
                 currentZpool = [], currentVdev = []\<rparr>"

definition parsePoolDisksFromLines :: "string list \<Rightarrow> PoolDisk list \<times> error option" where
  "parsePoolDisksFromLines lines = parseLoop initState lines"

text \<open>
  The state of the loop after it has gone through \<open>lines\<close>, and \<open>None\<close> when it has
  left the loop before their end (by \<open>break\<close> or by returning an error).
\<close>

fun stateAfter :: "parseState \<Rightarrow> string list \<Rightarrow> parseState option" where
  "stateAfter st [] = Some st"
| "stateAfter st (line # lines) =
     (case processLine st line of
        Continue st' \<Rightarrow> stateAfter st' lines
      | Break st' \<Rightarrow> None
      | Return r \<Rightarrow> None)"


text \<open>The input of \<open>TestZFSCommandLineParse\<close>, split at its line feeds.\<close>

definition sampleLines :: "string list" where
  "sampleLines =
    [''pool: ssd_tank'',
     '' state: ONLINE'',
     ''  scan: scrub repaired 0B in 02:44:52 with 0 errors on Sun Aug 14 03:08:54 2022'',
     ''config:'',
     [],
     ''        NAME        STATE     READ WRITE CKSUM'',
     ''        ssd_tank    ONLINE       0    13    26'',
     ''          mirror-0  ONLINE       1    14    27'',
     ''            sdc     ONLINE       2    15    28'',
     ''            sda     ONLINE       3    16    29'',
     ''          mirror-1  ONLINE       4    17    30'',
     ''            sdh     ONLINE       5    18    31'',
     ''            sdd     ONLINE       6    19    32'',
     ''          mirror-2  ONLINE       7    20    33'',
     ''            sde     ONLINE       8    21    34'',
     ''            sdf     ONLINE       9    22    35'',
     ''          mirror-3  ONLINE      10    23    36'',
     ''            sdg     ONLINE      11    24    37'',
     ''            sdi     ONLINE      12    25    38'',
     ''        spares'',
     ''          sdj       AVAIL'',
     [],
     ''errors: No known data errors'',
     []]"

text \<open>The \<open>expectedOutput\<close> of the same test.\<close>

definition mkDisk ::
  "string \<Rightarrow> string \<Rightarrow> string \<Rightarrow> string \<Rightarrow> string \<Rightarrow> int \<Rightarrow> int \<Rightarrow> int \<Rightarrow> PoolDisk" where
  "mkDisk z n v k s r w c =
     \<lparr>Zpool = z, Name = n, Vdev = v, Kind = k, State = s, ReadErrors = r,
      WriteErrors = w, ChecksumErrors = c\<rparr>"

definition expectedOutput :: "PoolDisk list" where
  "expectedOutput =
    [mkDisk ''ssd_tank'' ''mirror-0'' ''mirror-0'' ''vdev'' ''ONLINE'' 1 14 27,
     mkDisk ''ssd_tank'' ''sdc'' ''mirror-0'' ''disk'' ''ONLINE'' 2 15 28,
     mkDisk ''ssd_tank'' ''sda'' ''mirror-0'' ''disk'' ''ONLINE'' 3 16 29,
     mkDisk ''ssd_tank'' ''mirror-1'' ''mirror-1'' ''vdev'' ''ONLINE'' 4 17 30,
     mkDisk ''ssd_tank'' ''sdh'' ''mirror-1'' ''disk'' ''ONLINE'' 5 18 31,
     mkDisk ''ssd_tank'' ''sdd'' ''mirror-1'' ''disk'' ''ONLINE'' 6 19 32,
     mkDisk ''ssd_tank'' ''mirror-2'' ''mirror-2'' ''vdev'' ''ONLINE'' 7 20 33,
     mkDisk ''ssd_tank'' ''sde'' ''mirror-2'' ''disk'' ''ONLINE'' 8 21 34,
     mkDisk ''ssd_tank'' ''sdf'' ''mirror-2'' ''disk'' ''ONLINE'' 9 22 35,
     mkDisk ''ssd_tank'' ''mirror-3'' ''mirror-3'' ''vdev'' ''ONLINE'' 10 23 36,
     mkDisk ''ssd_tank'' ''sdg'' ''mirror-3'' ''disk'' ''ONLINE'' 11 24 37,
     mkDisk ''ssd_tank'' ''sdi'' ''mirror-3'' ''disk'' ''ONLINE'' 12 25 38,
     mkDisk ''spares'' ''sdj'' [] ''spare'' ''AVAIL'' 0 0 0]"

section \<open>The disk collector\<close>










section \<open>The pool collector\<close>

text \<open>
  \<open>updatePoolMetrics\<close> calls \<open>poolProperties.find\<close> and \<open>prop.push\<close>, which this file
  of the repository does not define. They are the parameters \<open>findProp\<close> and
  \<open>pushProp\<close> here: \<open>findProp k\<close> returns a property and an error,
  \<open>pushProp prop ch v labelValues\<close> the channel after the push and an error. The log
  is the list of the warnings written, each with its property key and error. The
  properties of the pool are the pairs of the map in the order in which the \<open>range\<close>
  loop meets them.
\<close>

type_synonym 'p finder = "string \<Rightarrow> 'p \<times> error option"

type_synonym ('p, 'm) pusher =
  "'p \<Rightarrow> 'm list \<Rightarrow> string \<Rightarrow> string list \<Rightarrow> 'm list \<times> error option"

fun pushProps ::
  "'p finder \<Rightarrow> ('p, 'm) pusher \<Rightarrow> string list \<Rightarrow> 'm list \<Rightarrow> (string \<times> error) list \<Rightarrow>
   (string \<times> string) list \<Rightarrow> ('m list \<times> (string \<times> error) list) \<times> error option" where
  "pushProps findProp pushProp labelValues ch lg [] = ((ch, lg), None)"
| "pushProps findProp pushProp labelValues ch lg ((k, v) # props) =
     (let (prop, err) = findProp k;
          lg' = (case err of Some e \<Rightarrow> lg @ [(k, e)] | None \<Rightarrow> lg)
      in case pushProp prop ch v labelValues of
           (ch', Some e) \<Rightarrow> ((ch', lg'), Some e)
         | (ch', None) \<Rightarrow> pushProps findProp pushProp labelValues ch' lg' props)"

definition updatePoolMetrics ::
  "'p finder \<Rightarrow> ('p, 'm) pusher \<Rightarrow> (string \<Rightarrow> error + (string \<times> string) list) \<Rightarrow>
   'm list \<Rightarrow> (string \<times> error) list \<Rightarrow> string \<Rightarrow>
   ('m list \<times> (string \<times> error) list) \<times> error option" where
  "updatePoolMetrics findProp pushProp Properties ch lg pool =
     (case Properties pool of
        Inl err \<Rightarrow> ((ch, lg), Some err)
      | Inr props \<Rightarrow> pushProps findProp pushProp [pool] ch lg props)"

text \<open>
  The loop of \<open>poolCollector.describe\<close> in the same file, which meets the same failed
  lookup: it writes the warning and goes on to the next key.
\<close>

fun describeProps ::
  "'p finder \<Rightarrow> ('p \<Rightarrow> 'd) \<Rightarrow> 'd list \<Rightarrow> (string \<times> error) list \<Rightarrow> string list \<Rightarrow>
   'd list \<times> (string \<times> error) list" where
  "describeProps findProp descOf ch lg [] = (ch, lg)"
| "describeProps findProp descOf ch lg (k # ks) =
     (let (prop, err) = findProp k
      in case err of
           Some e \<Rightarrow> describeProps findProp descOf ch (lg @ [(k, e)]) ks
         | None \<Rightarrow> describeProps findProp descOf (ch @ [descOf prop]) lg ks)"

text \<open>The keys of the \<open>poolProperties\<close> table.\<close>

definition registeredKeys :: "string list" where
  "registeredKeys =
     [''allocated'', ''dedupratio'', ''capacity'', ''expandsize'', ''fragmentation'', ''free'',
      ''freeing'', ''health'', ''leaked'', ''readonly'', ''size'']"

text \<open>
  Modelled from the spec: \<open>find\<close> of the Property Store, which is not in the source at
  hand. It fails with \<open>UnsupportedProperty\<close> when the key is not registered. A property
  is stood for by its key.
\<close>

definition specFind :: "string finder" where
  "specFind k = (if k \<in> set registeredKeys then (k, None) else (k, Some ErrUnsupportedProperty))"

text \<open>
  Modelled from the spec: the push of a property, which is not in the source at hand.
  It applies the transform of the property to the raw value and publishes the
  observation with the label values; the transform is the numeric one, which fails on
  a value that is no number.
\<close>

definition specPush :: "(string, string \<times> int \<times> string list) pusher" where
  "specPush prop ch v labelValues =
     (case Atoi v of
        Inl e \<Rightarrow> (ch, Some e)
      | Inr x \<Rightarrow> (ch @ [(prop, x, labelValues)], None))"

section \<open>Invariants of the loop\<close>

text \<open>A pool name has been read, and every record so far carries one.\<close>

definition poolNamed :: "parseState \<Rightarrow> bool" where
  "poolNamed st = (currentZpool st \<noteq> [] \<and> (\<forall>r\<in>set (poolDisks st). Zpool r \<noteq> []))"

text \<open>The spare records so far have no error counts.\<close>

definition sparesZero :: "parseState \<Rightarrow> bool" where
  "sparesZero st = (\<forall>r\<in>set (poolDisks st). Kind r = ''spare'' \<longrightarrow>
      ReadErrors r = 0 \<and> WriteErrors r = 0 \<and> ChecksumErrors r = 0)"

text \<open>No record so far has a negative error count.\<close>

definition countersNonneg :: "parseState \<Rightarrow> bool" where
  "countersNonneg st = (\<forall>r\<in>set (poolDisks st).
      0 \<le> ReadErrors r \<and> 0 \<le> WriteErrors r \<and> 0 \<le> ChecksumErrors r)"


text \<open>
  The indentation of the first header line of the input, which the loop keeps as
  \<open>minPadding\<close>; \<open>None\<close> when no line is a header.
\<close>

fun headerPadding :: "string list \<Rightarrow> int option" where
  "headerPadding [] = None"
| "headerPadding (line # lines) =
     (if isHeader line then Some (padding line) else headerPadding lines)"

section \<open>Facts about the loop\<close>

lemma sample_parse: "parsePoolDisksFromLines sampleLines = (expectedOutput, None)"
  by code_simp

lemma padding_nonneg: "0 \<le> padding line"
proof -
  have "length (dropWhile (\<lambda>c. c \<in> set '' '') line) \<le> length line"
    by (rule length_dropWhile_le)
  then show ?thesis by (simp add: padding_def TrimLeft_def)
qed

lemma processLine_outside:
  "\<not> isInsideDisks st \<Longrightarrow> \<not> isHeader line \<Longrightarrow> processLine st line = Continue st"
  by (simp add: processLine_def)

lemma parseLoop_no_header:
  "\<not> isInsideDisks st \<Longrightarrow> \<forall>l\<in>set pre. \<not> isHeader l \<Longrightarrow>
   parseLoop st (pre @ rest) = parseLoop st rest"
  by (induction pre) (simp_all add: processLine_outside)

lemma fieldsFrom_nonempty: "f \<in> set (fieldsFrom k cur s) \<Longrightarrow> f \<noteq> []"
  by (induction k cur s rule: fieldsFrom.induct) (auto split: nat.splits if_splits)

lemma Fields_nonempty: "f \<in> set (Fields s) \<Longrightarrow> f \<noteq> []"
  unfolding Fields_def by (rule fieldsFrom_nonempty)

lemma spaceWidth_no_N: "spaceWidth s = Suc k \<Longrightarrow> CHR ''N'' \<notin> set (take (Suc k) s)"
  by (cases s) (auto simp: asciiSpace_def split: if_splits list.splits dest: in_set_takeD)

lemma fieldsFrom_blank:
  "fieldsFrom k cur s = [] \<Longrightarrow> cur = [] \<and> CHR ''N'' \<notin> set (drop k s)"
proof (induction k cur s rule: fieldsFrom.induct)
  case (1 skip cur)
  then show ?case by (simp split: if_splits)
next
  case (2 k cur c cs)
  then show ?case by simp
next
  case (3 cur c cs)
  show ?case
  proof (cases "spaceWidth (c # cs)")
    case 0
    with 3 show ?thesis by simp
  next
    case (Suc k)
    with 3 have cur: "cur = []" and rest: "CHR ''N'' \<notin> set (drop k cs)"
      by (simp_all split: if_splits)
    from spaceWidth_no_N [OF Suc] have "CHR ''N'' \<notin> set (take (Suc k) (c # cs))" .
    moreover have "set (c # cs) = set (take (Suc k) (c # cs)) \<union> set (drop (Suc k) (c # cs))"
      by (metis append_take_drop_id set_append)
    ultimately show ?thesis using cur rest by auto
  qed
qed

lemma Contains_hd: "Contains s (c # sub) \<Longrightarrow> c \<in> set s"
  by (induction s) (auto simp: HasPrefix_def)

lemma blank_not_header: "Fields b = [] \<Longrightarrow> \<not> isHeader b"
proof
  assume "Fields b = []" and "isHeader b"
  then have "CHR ''N'' \<notin> set b" using fieldsFrom_blank [of 0 "[]" b] by (simp add: Fields_def)
  moreover from \<open>isHeader b\<close> have "CHR ''N'' \<in> set b"
    using Contains_hd [of b "CHR ''N''" "''AME''"] by (simp add: isHeader_def)
  ultimately show False by simp
qed

lemma processLine_Break: "processLine st line = Break st' \<Longrightarrow> st' = st"
  by (auto simp: processLine_def Let_def split: if_splits sum.splits)

lemma processLine_Return: "processLine st line = Return r \<Longrightarrow> \<exists>e. r = ([], Some e)"
  by (auto simp: processLine_def Let_def split: if_splits sum.splits)

lemma processLine_Continue:
  assumes "processLine st line = Continue st'"
  shows "st' = st
    \<or> (\<not> isInsideDisks st \<and> isHeader line
        \<and> st' = st\<lparr>isInsideDisks := True, minPadding := padding line\<rparr>)
    \<or> (isInsideDisks st \<and> Fields line \<noteq> []
        \<and> st' = st\<lparr>currentZpool := Fields line ! 0\<rparr>)
    \<or> (isInsideDisks st \<and> currentZpool st = ''spares'' \<and> length (Fields line) = 2
        \<and> st' = st\<lparr>poolDisks := poolDisks st @
              [mkDisk ''spares'' (Fields line ! 0) [] ''spare'' (Fields line ! 1) 0 0 0]\<rparr>)
    \<or> (isInsideDisks st \<and> length (Fields line) = 5
        \<and> (\<exists>r w c. Atoi (Fields line ! 2) = Inr r \<and> Atoi (Fields line ! 3) = Inr w
              \<and> Atoi (Fields line ! 4) = Inr c
              \<and> st' = st\<lparr>currentVdev := Fields line ! 0, poolDisks := poolDisks st @
                   [mkDisk (currentZpool st) (Fields line ! 0) (Fields line ! 0) ''vdev''
                      (Fields line ! 1) r w c]\<rparr>))
    \<or> (isInsideDisks st \<and> length (Fields line) = 5
        \<and> (\<exists>r w c. Atoi (Fields line ! 2) = Inr r \<and> Atoi (Fields line ! 3) = Inr w
              \<and> Atoi (Fields line ! 4) = Inr c
              \<and> st' = st\<lparr>poolDisks := poolDisks st @
                   [mkDisk (currentZpool st) (Fields line ! 0) (currentVdev st) ''disk''
                      (Fields line ! 1) r w c]\<rparr>))"
  using assms
  by (auto simp: processLine_def Let_def mkDisk_def split: if_splits sum.splits)

text \<open>
  The rule for invariants of the loop: what holds at its start and is kept by every
  iteration that goes on holds of the state whose records are returned.
\<close>

lemma parseLoop_invariant:
  assumes "P st"
    and "\<And>s line s'. line \<in> set lines \<Longrightarrow> P s \<Longrightarrow> processLine s line = Continue s' \<Longrightarrow> P s'"
  shows "(\<exists>e. parseLoop st lines = ([], Some e))
         \<or> (\<exists>st'. P st' \<and> parseLoop st lines = (poolDisks st', None))"
  using assms
proof (induction lines arbitrary: st)
  case Nil
  then show ?case by auto
next
  case (Cons line lines)
  show ?case
  proof (cases "processLine st line")
    case (Continue s')
    have "P s'"
      using Cons.prems(2) [of line st s'] Cons.prems(1) Continue by simp
    moreover have "\<And>l s t. l \<in> set lines \<Longrightarrow> P s \<Longrightarrow> processLine s l = Continue t \<Longrightarrow> P t"
      by (rule Cons.prems(2)) simp_all
    ultimately show ?thesis
      using Cons.IH [of s'] Continue by simp
  next
    case (Break s')
    with processLine_Break [of st line s'] Cons.prems(1) show ?thesis by auto
  next
    case (Return r)
    with processLine_Return [of st line r] show ?thesis by auto
  qed
qed

lemma parseLoop_stateAfter:
  "stateAfter st pre = Some st' \<Longrightarrow> parseLoop st (pre @ post) = parseLoop st' post"
  by (induction pre arbitrary: st) (auto split: outcome.splits)

lemma parseLoop_stateAfter_None:
  "stateAfter st pre = None \<Longrightarrow> parseLoop st (pre @ post) = parseLoop st pre"
  by (induction pre arbitrary: st) (auto split: outcome.splits)

lemma parseLoop_stateAfter_end:
  "stateAfter st lines = Some st' \<Longrightarrow> parseLoop st lines = (poolDisks st', None)"
  using parseLoop_stateAfter [of st lines st' "[]"] by simp

lemma Fields_nth_nonempty: "i < length (Fields s) \<Longrightarrow> Fields s ! i \<noteq> []"
  using Fields_nonempty [of "Fields s ! i" s] by simp

section \<open>The sample report\<close>

text \<open>
  Claim C1. On the sample status report of pool \<open>ssd_tank\<close> (four mirrors of two disks
  each and the spare \<open>sdj\<close>), \<open>parsePoolDisksFromLines\<close> returns no error and exactly 13
  records: 4 of kind vdev, 8 of kind disk and 1 of kind spare. The record of
  \<open>mirror-0\<close> carries the integers of its row, 1, 14 and 27, as read, write and checksum
  errors; the record of \<open>sdj\<close> has the state AVAIL and three error counts of zero.
\<close>

theorem sample_report_records:
  "snd (parsePoolDisksFromLines sampleLines) = None
   \<and> length (fst (parsePoolDisksFromLines sampleLines)) = 13
   \<and> length (filter (\<lambda>r. Kind r = ''vdev'') (fst (parsePoolDisksFromLines sampleLines))) = 4
   \<and> length (filter (\<lambda>r. Kind r = ''disk'') (fst (parsePoolDisksFromLines sampleLines))) = 8
   \<and> length (filter (\<lambda>r. Kind r = ''spare'') (fst (parsePoolDisksFromLines sampleLines))) = 1
   \<and> filter (\<lambda>r. Name r = ''mirror-0'') (fst (parsePoolDisksFromLines sampleLines))
       = [mkDisk ''ssd_tank'' ''mirror-0'' ''mirror-0'' ''vdev'' ''ONLINE'' 1 14 27]
   \<and> filter (\<lambda>r. Name r = ''sdj'') (fst (parsePoolDisksFromLines sampleLines))
       = [mkDisk ''spares'' ''sdj'' [] ''spare'' ''AVAIL'' 0 0 0]"
  by (simp add: sample_parse expectedOutput_def mkDisk_def)

section \<open>Input without a header\<close>

text \<open>
  Claim C10. When no line of the input has all three markers NAME, STATE and CKSUM,
  \<open>parsePoolDisksFromLines\<close> returns an empty record list and a nil error: a missing
  topology header is no error.
\<close>

theorem no_header_empty_result:
  assumes "\<forall>l\<in>set lines. \<not> isHeader l"
  shows "parsePoolDisksFromLines lines = ([], None)"
  using assms parseLoop_no_header [of initState lines "[]"]
  by (simp add: parsePoolDisksFromLines_def initState_def)

theorem no_header_empty_result_witness:
  "\<not> isHeader ''pool: tank'' \<and> \<not> isHeader '' state: ONLINE'' \<and> \<not> isHeader ''config:''
   \<and> \<not> isHeader []
   \<and> parsePoolDisksFromLines [''pool: tank'', '' state: ONLINE'', ''config:'', []] = ([], None)"
  using no_header_empty_result [of "[''pool: tank'', '' state: ONLINE'', ''config:'', []]"]
  by (simp add: isHeader_def HasPrefix_def)

section \<open>Parsing twice\<close>

text \<open>
  Claim C7. Parsing the same line sequence twice gives the same result: the same error
  outcome and, on success, record sequences of the same length that are equal element
  by element. The function keeps its whole state in local variables that each call
  sets up anew, which is why it is a function of the lines alone here.
\<close>

theorem parse_twice_same_result:
  "(let first = parsePoolDisksFromLines lines;
        second = parsePoolDisksFromLines lines
    in snd first = snd second
       \<and> length (fst first) = length (fst second)
       \<and> fst first = fst second)"
  by (simp add: Let_def)

section \<open>The pool field of a record\<close>

lemma poolNamed_step:
  assumes "poolNamed st" and "processLine st line = Continue st'"
  shows "poolNamed st'"
  using processLine_Continue [OF assms(2)] assms(1) Fields_nth_nonempty [of 0 line]
  by (auto simp: poolNamed_def mkDisk_def)

text \<open>
  Claim C9 says that every record of an accepted input has a non-empty pool field.
  It fails for a vdev row that comes before any pool row: \<open>currentZpool\<close> is still the
  empty string with which the function starts, and the record takes it.
\<close>

theorem pool_field_empty_counterexample:
  "parsePoolDisksFromLines [''NAME STATE CKSUM'', ''  m ONLINE 0 0 0'']
     = ([mkDisk [] ''m'' ''m'' ''vdev'' ''ONLINE'' 0 0 0], None)"
  by code_simp

text \<open>
  Claim C9, amended. When the header line is directly followed by a pool row, that is
  a line with the indentation of the header and at least one field, every record that
  \<open>parsePoolDisksFromLines\<close> returns has a non-empty pool field (the name of the pool
  row last read, or \<open>spares\<close>).
\<close>

theorem pool_nonempty_after_pool_row:
  assumes "\<forall>l\<in>set pre. \<not> isHeader l" and "isHeader hdr"
    and "padding row = padding hdr" and "Fields row \<noteq> []"
  shows "\<forall>r\<in>set (fst (parsePoolDisksFromLines (pre @ hdr # row # rest))). Zpool r \<noteq> []"
proof -
  define s1 where "s1 = initState\<lparr>isInsideDisks := True, minPadding := padding hdr\<rparr>"
  define s2 where "s2 = s1\<lparr>currentZpool := Fields row ! 0\<rparr>"
  have "parsePoolDisksFromLines (pre @ hdr # row # rest) = parseLoop initState (hdr # row # rest)"
    using parseLoop_no_header [of initState pre] assms(1)
    by (simp add: parsePoolDisksFromLines_def initState_def)
  moreover have "processLine initState hdr = Continue s1"
    using assms(2) by (simp add: processLine_def initState_def s1_def)
  moreover have "processLine s1 row = Continue s2"
    using assms(3,4) by (simp add: processLine_def s1_def s2_def)
  ultimately have eq: "parsePoolDisksFromLines (pre @ hdr # row # rest) = parseLoop s2 rest"
    by simp
  have "poolNamed s2"
    using Fields_nth_nonempty [of 0 row] assms(4)
    by (simp add: poolNamed_def s2_def s1_def initState_def)
  then have "(\<exists>e. parseLoop s2 rest = ([], Some e))
      \<or> (\<exists>st'. poolNamed st' \<and> parseLoop s2 rest = (poolDisks st', None))"
    by (rule parseLoop_invariant) (rule poolNamed_step)
  then show ?thesis
    unfolding eq by (auto simp: poolNamed_def)
qed

theorem pool_nonempty_after_pool_row_witness:
  "list_all (\<lambda>l. \<not> isHeader l) (take 5 sampleLines) \<and> isHeader (sampleLines ! 5)
   \<and> padding (sampleLines ! 6) = padding (sampleLines ! 5) \<and> Fields (sampleLines ! 6) \<noteq> []
   \<and> list_all (\<lambda>r. Zpool r \<noteq> []) (fst (parsePoolDisksFromLines sampleLines))"
proof -
  have parts: "sampleLines
      = take 5 sampleLines @ sampleLines ! 5 # sampleLines ! 6 # drop 7 sampleLines"
    by (simp add: sampleLines_def)
  have h1: "\<forall>l\<in>set (take 5 sampleLines). \<not> isHeader l"
    by (simp add: sampleLines_def isHeader_def HasPrefix_def)
  have h2: "isHeader (sampleLines ! 5)"
    by (simp add: sampleLines_def isHeader_def HasPrefix_def)
  have h3: "padding (sampleLines ! 6) = padding (sampleLines ! 5)"
    by (simp add: sampleLines_def padding_def TrimLeft_def)
  have h4: "Fields (sampleLines ! 6) \<noteq> []"
    by (simp add: sampleLines_def Fields_def asciiSpace_def)
  from pool_nonempty_after_pool_row [OF h1 h2 h3 h4, of "drop 7 sampleLines"] parts
  have "\<forall>r\<in>set (fst (parsePoolDisksFromLines sampleLines)). Zpool r \<noteq> []" by simp
  with h1 h2 h3 h4 show ?thesis by (simp add: list_all_iff)
qed

section \<open>The error counts of a record\<close>

lemma Atoi_nonneg: "Atoi s = Inr n \<Longrightarrow> \<not> HasPrefix s ''-'' \<Longrightarrow> 0 \<le> n"
  by (cases s) (auto simp: Atoi_def ParseInt_def HasPrefix_def Let_def
        split: if_splits sum.splits error.splits)

lemma sparesZero_step:
  assumes "sparesZero st" and "processLine st line = Continue st'"
  shows "sparesZero st'"
  using processLine_Continue [OF assms(2)] assms(1)
  by (auto simp: sparesZero_def mkDisk_def)

lemma countersNonneg_step:
  assumes "\<forall>f\<in>set (Fields line). \<not> HasPrefix f ''-''"
    and "countersNonneg st" and "processLine st line = Continue st'"
  shows "countersNonneg st'"
proof -
  have nn: "\<And>i n. i < length (Fields line) \<Longrightarrow> Atoi (Fields line ! i) = Inr n \<Longrightarrow> 0 \<le> n"
    using assms(1) Atoi_nonneg by (metis nth_mem)
  show ?thesis
    using processLine_Continue [OF assms(3)] assms(2) nn [of 2] nn [of 3] nn [of 4]
    by (auto simp: countersNonneg_def mkDisk_def)
qed

text \<open>
  Claim C6 says that every record of an accepted input has non-negative error counts.
  It fails for a count written with a minus sign: \<open>strconv.Atoi\<close> reads an optional
  sign, so the field \<open>-1\<close> is accepted and the record carries \<open>-1\<close>.
\<close>

theorem negative_counter_counterexample:
  "parsePoolDisksFromLines
     [''NAME STATE CKSUM'', ''tank ONLINE 0 0 0'', ''  sda ONLINE -1 0 0'']
     = ([mkDisk ''tank'' ''sda'' ''sda'' ''vdev'' ''ONLINE'' (- 1) 0 0], None)"
  by code_simp

text \<open>
  Claim C6, amended. Every record of kind spare that \<open>parsePoolDisksFromLines\<close>
  returns has read, write and checksum errors of zero; and when no field of any input
  line begins with a minus sign, every returned record has non-negative read, write
  and checksum errors.
\<close>

theorem counters_of_records:
  "(\<forall>r\<in>set (fst (parsePoolDisksFromLines lines)). Kind r = ''spare'' \<longrightarrow>
      ReadErrors r = 0 \<and> WriteErrors r = 0 \<and> ChecksumErrors r = 0)
   \<and> ((\<forall>l\<in>set lines. \<forall>f\<in>set (Fields l). \<not> HasPrefix f ''-'') \<longrightarrow>
      (\<forall>r\<in>set (fst (parsePoolDisksFromLines lines)).
         0 \<le> ReadErrors r \<and> 0 \<le> WriteErrors r \<and> 0 \<le> ChecksumErrors r))"
proof (intro conjI impI)
  have "sparesZero initState" by (simp add: sparesZero_def initState_def)
  then have "(\<exists>e. parseLoop initState lines = ([], Some e))
      \<or> (\<exists>st'. sparesZero st' \<and> parseLoop initState lines = (poolDisks st', None))"
    by (rule parseLoop_invariant) (rule sparesZero_step)
  then show "\<forall>r\<in>set (fst (parsePoolDisksFromLines lines)). Kind r = ''spare'' \<longrightarrow>
      ReadErrors r = 0 \<and> WriteErrors r = 0 \<and> ChecksumErrors r = 0"
    by (auto simp: parsePoolDisksFromLines_def sparesZero_def)
next
  assume nominus: "\<forall>l\<in>set lines. \<forall>f\<in>set (Fields l). \<not> HasPrefix f ''-''"
  have "countersNonneg initState" by (simp add: countersNonneg_def initState_def)
  then have "(\<exists>e. parseLoop initState lines = ([], Some e))
      \<or> (\<exists>st'. countersNonneg st' \<and> parseLoop initState lines = (poolDisks st', None))"
  proof (rule parseLoop_invariant)
    fix s line s'
    assume "line \<in> set lines" "countersNonneg s" "processLine s line = Continue s'"
    with nominus show "countersNonneg s'"
      using countersNonneg_step [of line s s'] by simp
  qed
  then show "\<forall>r\<in>set (fst (parsePoolDisksFromLines lines)).
      0 \<le> ReadErrors r \<and> 0 \<le> WriteErrors r \<and> 0 \<le> ChecksumErrors r"
    by (auto simp: parsePoolDisksFromLines_def countersNonneg_def)
qed

theorem counters_of_records_witness:
  "list_all (\<lambda>l. list_all (\<lambda>f. \<not> HasPrefix f ''-'') (Fields l)) sampleLines
   \<and> list_all (\<lambda>r. 0 \<le> ReadErrors r \<and> 0 \<le> WriteErrors r \<and> 0 \<le> ChecksumErrors r)
        (fst (parsePoolDisksFromLines sampleLines))
   \<and> list_all (\<lambda>r. Kind r = ''spare'' \<longrightarrow>
          ReadErrors r = 0 \<and> WriteErrors r = 0 \<and> ChecksumErrors r = 0)
        (fst (parsePoolDisksFromLines sampleLines))"
proof -
  have nominus: "\<forall>l\<in>set sampleLines. \<forall>f\<in>set (Fields l). \<not> HasPrefix f ''-''"
    by code_simp
  with counters_of_records [of sampleLines] show ?thesis
    unfolding list_all_iff by blast
qed

section \<open>The vdev field of a disk record\<close>








section \<open>Malformed error counts\<close>

lemma processLine_malformed:
  assumes "isInsideDisks st" and "length (Fields row) = 5"
    and "padding row - minPadding st = 2 \<and> currentZpool st \<noteq> ''spares''
         \<or> 4 \<le> padding row - minPadding st"
    and "isl (Atoi (Fields row ! 2)) \<or> isl (Atoi (Fields row ! 3)) \<or> isl (Atoi (Fields row ! 4))"
  shows "\<exists>err. processLine st row = Return ([], Some err)"
  using assms
  by (auto simp: processLine_def Let_def isl_def split: sum.splits)

text \<open>
  Claim C2 says that a malformed read, write or checksum field in any five-field row at
  vdev or disk depth after the header makes the function return an error and no
  records. It fails for a row that comes after the end of the topology block: the loop
  stops at the first line that is indented less than the header (the empty line
  below), and the rows after it are never read.
\<close>

theorem malformed_row_after_block_counterexample: "parsePoolDisksFromLines
     [''        NAME   STATE  READ WRITE CKSUM'',
      ''        a      ONLINE 0 0 0'',
      ''          sda  ONLINE 0 0 0'',
      [],
      ''          sdb  ONLINE x 0 0'']
   = ([mkDisk ''a'' ''sda'' ''sda'' ''vdev'' ''ONLINE'' 0 0 0], None)"
  by code_simp

text \<open>
  Claim C2, amended. When the loop reaches a row inside the topology block (no line
  before it has ended the loop), the row has five fields and stands at vdev depth
  (padding delta 2, \<open>currentZpool\<close> not \<open>spares\<close>) or at disk depth (padding delta at
  least 4), and its read, write or checksum field is no integer that \<open>strconv.Atoi\<close>
  accepts, then \<open>parsePoolDisksFromLines\<close> returns an error together with an empty
  record list, whatever lines follow.
\<close>

theorem malformed_counter_aborts:
  assumes "stateAfter initState pre = Some st" and "isInsideDisks st"
    and "length (Fields row) = 5"
    and "padding row - minPadding st = 2 \<and> currentZpool st \<noteq> ''spares''
         \<or> 4 \<le> padding row - minPadding st"
    and "isl (Atoi (Fields row ! 2)) \<or> isl (Atoi (Fields row ! 3)) \<or> isl (Atoi (Fields row ! 4))"
  shows "\<exists>err. parsePoolDisksFromLines (pre @ row # post) = ([], Some err)"
proof -
  from processLine_malformed [OF assms(2-5)]
  obtain err where "processLine st row = Return ([], Some err)" ..
  then have "parseLoop st (row # post) = ([], Some err)" by simp
  with parseLoop_stateAfter [OF assms(1), of "row # post"] show ?thesis
    by (auto simp: parsePoolDisksFromLines_def)
qed

theorem malformed_counter_aborts_witness:
  "stateAfter initState [''NAME STATE CKSUM'', ''tank ONLINE 0 0 0'']
     = Some \<lparr>poolDisks = [], isInsideDisks = True, minPadding = 0, currentZpool = ''tank'',
             currentVdev = []\<rparr>
   \<and> length (Fields ''  sda ONLINE x 0 0'') = 5
   \<and> padding ''  sda ONLINE x 0 0'' - 0 = 2
   \<and> ''tank'' \<noteq> ''spares''
   \<and> isl (Atoi (Fields ''  sda ONLINE x 0 0'' ! 2))
   \<and> parsePoolDisksFromLines
        [''NAME STATE CKSUM'', ''tank ONLINE 0 0 0'', ''  sda ONLINE x 0 0'',
         ''  sdb ONLINE 0 0 0'']
       = ([], Some ErrSyntax)"
proof -
  let ?st = "\<lparr>poolDisks = [], isInsideDisks = True, minPadding = 0, currentZpool = ''tank'',
             currentVdev = []\<rparr>"
  have h1: "stateAfter initState [''NAME STATE CKSUM'', ''tank ONLINE 0 0 0''] = Some ?st"
    by code_simp
  have h2: "isInsideDisks ?st" by simp
  have h3: "length (Fields ''  sda ONLINE x 0 0'') = 5" by code_simp
  have p: "padding ''  sda ONLINE x 0 0'' = 2" by code_simp
  have h4: "padding ''  sda ONLINE x 0 0'' - minPadding ?st = 2 \<and> currentZpool ?st \<noteq> ''spares''
         \<or> 4 \<le> padding ''  sda ONLINE x 0 0'' - minPadding ?st"
    using p by simp
  have a: "isl (Atoi (Fields ''  sda ONLINE x 0 0'' ! 2))" by code_simp
  then have h5: "isl (Atoi (Fields ''  sda ONLINE x 0 0'' ! 2)) \<or> isl (Atoi (Fields ''  sda ONLINE x 0 0'' ! 3))
      \<or> isl (Atoi (Fields ''  sda ONLINE x 0 0'' ! 4))" by simp
  have r: "parsePoolDisksFromLines
        [''NAME STATE CKSUM'', ''tank ONLINE 0 0 0'', ''  sda ONLINE x 0 0'',
         ''  sdb ONLINE 0 0 0''] = ([], Some ErrSyntax)" by code_simp
  from malformed_counter_aborts [OF h1 h2 h3 h4 h5, of "[''  sdb ONLINE 0 0 0'']"] h1 h3 p a r
  show ?thesis by simp
qed

section \<open>Blank lines and the trailing summary\<close>

lemma processLine_inside:
  "isInsideDisks st \<Longrightarrow> processLine st line = Continue st' \<Longrightarrow>
   isInsideDisks st' \<and> minPadding st' = minPadding st"
  by (drule processLine_Continue) (auto simp: mkDisk_def)

lemma stateAfter_inside:
  "stateAfter st pre = Some st' \<Longrightarrow> isInsideDisks st \<Longrightarrow>
   isInsideDisks st' \<and> minPadding st' = minPadding st"
proof (induction pre arbitrary: st)
  case Nil
  then show ?case by simp
next
  case (Cons line pre)
  then obtain s where s: "processLine st line = Continue s" and rest: "stateAfter s pre = Some st'"
    by (auto split: outcome.splits)
  from processLine_inside [OF Cons.prems(2) s] Cons.IH [OF rest] show ?case by simp
qed

lemma stateAfter_headerPadding:
  "stateAfter st pre = Some st' \<Longrightarrow> \<not> isInsideDisks st \<Longrightarrow> isInsideDisks st' \<Longrightarrow>
   headerPadding pre = Some (minPadding st')"
proof (induction pre arbitrary: st)
  case Nil
  then show ?case by simp
next
  case (Cons line pre)
  show ?case
  proof (cases "isHeader line")
    case True
    with Cons.prems(2)
    have "processLine st line = Continue (st\<lparr>isInsideDisks := True, minPadding := padding line\<rparr>)"
      by (simp add: processLine_def)
    with Cons.prems(1)
    have "stateAfter (st\<lparr>isInsideDisks := True, minPadding := padding line\<rparr>) pre = Some st'"
      by simp
    from stateAfter_inside [OF this] True show ?thesis by simp
  next
    case False
    with Cons.prems(2) have "processLine st line = Continue st"
      by (simp add: processLine_outside)
    with Cons.prems(1) have "stateAfter st pre = Some st'" by simp
    from Cons.IH [OF this Cons.prems(2,3)] False show ?thesis by simp
  qed
qed

lemma processLine_blank:
  assumes "Fields b = []" and "isInsideDisks st \<longrightarrow> minPadding st \<le> padding b"
  shows "processLine st b = Continue st"
proof (cases "isInsideDisks st")
  case True
  with assms show ?thesis by (simp add: processLine_def Let_def)
next
  case False
  with blank_not_header [OF assms(1)] show ?thesis by (simp add: processLine_outside)
qed

lemma stateAfter_minPadding:
  "stateAfter st pre = Some st' \<Longrightarrow> 0 \<le> minPadding st \<Longrightarrow> 0 \<le> minPadding st'"
proof (induction pre arbitrary: st)
  case Nil
  then show ?case by simp
next
  case (Cons line pre)
  then obtain s where s: "processLine st line = Continue s" and rest: "stateAfter s pre = Some st'"
    by (auto split: outcome.splits)
  from processLine_Continue [OF s] Cons.prems(2) padding_nonneg [of line]
  have "0 \<le> minPadding s" by (auto simp: mkDisk_def)
  with Cons.IH [OF rest] show ?case by simp
qed

lemma processLine_unindented:
  assumes "padding l = 0" and "\<not> isHeader l" and "0 \<le> minPadding st"
  shows "processLine st l = Break st
         \<or> (\<exists>z. processLine st l = Continue (st\<lparr>currentZpool := z\<rparr>))"
proof (cases "isInsideDisks st")
  case False
  with assms(2) have "processLine st l = Continue (st\<lparr>currentZpool := currentZpool st\<rparr>)"
    by (simp add: processLine_outside)
  then show ?thesis by blast
next
  case True
  show ?thesis
  proof (cases "minPadding st = 0")
    case zero: True
    show ?thesis
    proof (cases "Fields l = []")
      case True
      with zero \<open>isInsideDisks st\<close> assms(1)
      have "processLine st l = Continue (st\<lparr>currentZpool := currentZpool st\<rparr>)"
        by (simp add: processLine_def)
      then show ?thesis by blast
    next
      case False
      with zero \<open>isInsideDisks st\<close> assms(1)
      have "processLine st l = Continue (st\<lparr>currentZpool := Fields l ! 0\<rparr>)"
        by (simp add: processLine_def)
      then show ?thesis by blast
    qed
  next
    case False
    with assms(1,3) True show ?thesis by (simp add: processLine_def)
  qed
qed

lemma parseLoop_trailer:
  "\<forall>l\<in>set trailer. padding l = 0 \<and> \<not> isHeader l \<Longrightarrow> 0 \<le> minPadding st \<Longrightarrow>
   parseLoop st trailer = (poolDisks st, None)"
proof (induction trailer arbitrary: st)
  case Nil
  then show ?case by simp
next
  case (Cons l trailer)
  from Cons.prems have "padding l = 0" "\<not> isHeader l" by simp_all
  from processLine_unindented [OF this Cons.prems(2)] show ?case
  proof
    assume "processLine st l = Break st"
    then show ?thesis by simp
  next
    assume "\<exists>z. processLine st l = Continue (st\<lparr>currentZpool := z\<rparr>)"
    then obtain z where z: "processLine st l = Continue (st\<lparr>currentZpool := z\<rparr>)" ..
    from Cons.prems have "parseLoop (st\<lparr>currentZpool := z\<rparr>) trailer
        = (poolDisks (st\<lparr>currentZpool := z\<rparr>), None)"
      by (intro Cons.IH) simp_all
    with z show ?thesis by simp
  qed
qed

text \<open>
  Claim C8 says that blank lines inside the topology block leave the records of the
  data rows as they are. It fails for a blank line with fewer leading spaces than the
  header, such as the empty line: it ends the loop, and the rows after it give no
  record.
\<close>

theorem blank_line_ends_block_counterexample: "parsePoolDisksFromLines
     ['' NAME STATE READ WRITE CKSUM'', '' tank ONLINE 0 0 0'', [], ''   sda ONLINE 0 0 0'']
     = ([], None)
   \<and> parsePoolDisksFromLines
     ['' NAME STATE READ WRITE CKSUM'', '' tank ONLINE 0 0 0'', ''   sda ONLINE 0 0 0'']
     = ([mkDisk ''tank'' ''sda'' ''sda'' ''vdev'' ''ONLINE'' 0 0 0], None)"
  by code_simp

text \<open>
  Claim C8, amended. A line without fields that has at least as many leading spaces as
  the header line before it (or comes before any header) is skipped: the result is the
  one of the input without this line. Lines without indentation that are no header,
  such as the empty line and the \<open>errors:\<close> summary, leave the result as it is when
  they are added at the end of the input.
\<close>

theorem blank_and_trailing_lines_skipped:
  assumes "Fields b = []"
    and "\<forall>p. headerPadding pre = Some p \<longrightarrow> p \<le> padding b"
    and "\<forall>l\<in>set trailer. padding l = 0 \<and> \<not> isHeader l"
  shows "parsePoolDisksFromLines (pre @ b # post) = parsePoolDisksFromLines (pre @ post)
         \<and> parsePoolDisksFromLines (lines @ trailer) = parsePoolDisksFromLines lines"
proof
  show "parsePoolDisksFromLines (pre @ b # post) = parsePoolDisksFromLines (pre @ post)"
  proof (cases "stateAfter initState pre")
    case None
    then show ?thesis
      by (simp add: parsePoolDisksFromLines_def parseLoop_stateAfter_None)
  next
    case (Some st)
    have "isInsideDisks st \<longrightarrow> minPadding st \<le> padding b"
      using stateAfter_headerPadding [OF Some] assms(2) by (simp add: initState_def)
    with assms(1) have "processLine st b = Continue st" by (rule processLine_blank)
    then have "parseLoop st (b # post) = parseLoop st post" by simp
    then show ?thesis
      by (simp add: parsePoolDisksFromLines_def parseLoop_stateAfter [OF Some])
  qed
next
  show "parsePoolDisksFromLines (lines @ trailer) = parsePoolDisksFromLines lines"
  proof (cases "stateAfter initState lines")
    case None
    then show ?thesis
      by (simp add: parsePoolDisksFromLines_def parseLoop_stateAfter_None)
  next
    case (Some st)
    from stateAfter_minPadding [OF Some] have "0 \<le> minPadding st" by (simp add: initState_def)
    with assms(3) have "parseLoop st trailer = (poolDisks st, None)" by (rule parseLoop_trailer)
    then show ?thesis
      by (simp add: parsePoolDisksFromLines_def parseLoop_stateAfter [OF Some]
            parseLoop_stateAfter_end [OF Some])
  qed
qed

theorem blank_and_trailing_lines_skipped_witness:
  "Fields ''            '' = []
   \<and> headerPadding (take 8 sampleLines) = Some 8
   \<and> 8 \<le> padding ''            ''
   \<and> list_all (\<lambda>l. padding l = 0 \<and> \<not> isHeader l) [[], ''errors: No known data errors'', []]
   \<and> parsePoolDisksFromLines (take 8 sampleLines @ ''            '' # drop 8 sampleLines)
       = parsePoolDisksFromLines sampleLines
   \<and> parsePoolDisksFromLines (take 21 sampleLines @ [[], ''errors: No known data errors'', []])
       = parsePoolDisksFromLines (take 21 sampleLines)"
proof -
  have h1: "Fields ''            '' = []" by code_simp
  have hp: "headerPadding (take 8 sampleLines) = Some 8" by code_simp
  have pb: "padding ''            '' = 12" by code_simp
  have h2: "\<forall>p. headerPadding (take 8 sampleLines) = Some p \<longrightarrow> p \<le> padding ''            ''"
    using hp pb by simp
  have h3: "\<forall>l\<in>set [[], ''errors: No known data errors'', []]. padding l = 0 \<and> \<not> isHeader l"
    by code_simp
  from blank_and_trailing_lines_skipped
         [OF h1 h2 h3, of "drop 8 sampleLines" "take 21 sampleLines"] h1 hp pb h3
  show ?thesis by (simp add: list_all_iff)
qed

section \<open>What the disk collector publishes\<close>






section \<open>A property key that is not registered\<close>

text \<open>The loop of \<open>describe\<close> passes over a key whose lookup fails.\<close>

lemma describe_skips_unsupported:
  "findProp k = (prop, Some e) \<Longrightarrow>
   describeProps findProp descOf ch lg (k # ks) = describeProps findProp descOf ch (lg @ [(k, e)]) ks"
  by simp

text \<open>
  Claim C4 says that \<open>updatePoolMetrics\<close> logs a warning for a property key that is not
  registered, skips the key and goes on with the other keys of the pool. What the code
  does at such a key: it logs the warning and then, having no \<open>continue\<close>, pushes the
  property that the failed lookup returned. The key is not skipped, and when this push
  fails the function returns the error at once, without the keys that remain.
\<close>

theorem unsupported_property_is_pushed:
  assumes "Properties pool = Inr ((k, v) # rest)" and "findProp k = (prop, Some e)"
  shows "updatePoolMetrics findProp pushProp Properties ch lg pool =
     (case pushProp prop ch v [pool] of
        (ch', Some e') \<Rightarrow> ((ch', lg @ [(k, e)]), Some e')
      | (ch', None) \<Rightarrow> pushProps findProp pushProp [pool] ch' (lg @ [(k, e)]) rest)"
  using assms by (simp add: updatePoolMetrics_def Let_def)

theorem unsupported_property_is_pushed_witness:
  "specFind ''comment'' = (''comment'', Some ErrUnsupportedProperty)
   \<and> updatePoolMetrics specFind specPush
        (\<lambda>pool. Inr [(''comment'', ''backup pool''), (''size'', ''1000'')]) [] [] ''tank''
       = (([], [(''comment'', ErrUnsupportedProperty)]), Some ErrSyntax)
   \<and> specFind ''guid'' = (''guid'', Some ErrUnsupportedProperty)
   \<and> updatePoolMetrics specFind specPush
        (\<lambda>pool. Inr [(''guid'', ''42''), (''size'', ''1000'')]) [] [] ''tank''
       = (([(''guid'', 42, [''tank'']), (''size'', 1000, [''tank''])],
           [(''guid'', ErrUnsupportedProperty)]), None)"
proof -
  have f1: "specFind ''comment'' = (''comment'', Some ErrUnsupportedProperty)"
    by (simp add: specFind_def registeredKeys_def)
  have f2: "specFind ''guid'' = (''guid'', Some ErrUnsupportedProperty)"
    by (simp add: specFind_def registeredKeys_def)
  have f3: "specFind ''size'' = (''size'', None)"
    by (simp add: specFind_def registeredKeys_def)
  have a1: "Atoi ''backup pool'' = Inl ErrSyntax"
    by (simp add: Atoi_def digitVal_def)
  have a2: "Atoi ''42'' = Inr 42"
    by (simp add: Atoi_def digitVal_def)
  have a3: "Atoi ''1000'' = Inr 1000"
    by (simp add: Atoi_def digitVal_def)
  from unsupported_property_is_pushed
         [of "\<lambda>pool. Inr [(''comment'', ''backup pool''), (''size'', ''1000'')]" "''tank''"
             "''comment''" "''backup pool''" "[(''size'', ''1000'')]" specFind "''comment''"
             ErrUnsupportedProperty specPush "[]" "[]"] f1
  have r1: "updatePoolMetrics specFind specPush
        (\<lambda>pool. Inr [(''comment'', ''backup pool''), (''size'', ''1000'')]) [] [] ''tank''
       = (([], [(''comment'', ErrUnsupportedProperty)]), Some ErrSyntax)"
    by (simp add: specPush_def a1)
  from unsupported_property_is_pushed
         [of "\<lambda>pool. Inr [(''guid'', ''42''), (''size'', ''1000'')]" "''tank''"
             "''guid''" "''42''" "[(''size'', ''1000'')]" specFind "''guid''"
             ErrUnsupportedProperty specPush "[]" "[]"] f2
  have r2: "updatePoolMetrics specFind specPush
        (\<lambda>pool. Inr [(''guid'', ''42''), (''size'', ''1000'')]) [] [] ''tank''
       = (([(''guid'', 42, [''tank'']), (''size'', 1000, [''tank''])],
           [(''guid'', ErrUnsupportedProperty)]), None)"
    by (simp add: specPush_def a2 a3 f3)
  from f1 f2 r1 r2 show ?thesis by simp
qed

end
